theory Spec2Isabelle
  imports Main "HOL-Library.Word" "HOL-Library.AList"
begin

section \<open>JavaScript values and strings\<close>

text \<open>
  The repository is three JavaScript modules: \<^verbatim>\<open>lib/decodeSearchEntry.js\<close> (a pure
  decoder with its helper \<^verbatim>\<open>formatGuid\<close>), \<^verbatim>\<open>lib/LdapValidator.js\<close> (one
  authentication attempt against a directory, driven by callbacks and events) and
  \<^verbatim>\<open>lib/strategy.js\<close> (the passport adapter, not modelled). JavaScript strings are
  modelled as \<^typ>\<open>string\<close>, one \<^typ>\<open>char\<close> per code unit; the elements of a
  \<^verbatim>\<open>Buffer\<close> are 8-bit words.
\<close>

type_synonym byte = "8 word"

text \<open>
  Exceptions that the modelled code can raise by itself: reading a \<^verbatim>\<open>let\<close> binding
  before its declaration has been evaluated (\<^verbatim>\<open>ReferenceError\<close>), and reading a property
  of \<^verbatim>\<open>undefined\<close> or calling something that is not a function (\<^verbatim>\<open>TypeError\<close>).
\<close>

datatype js_exn = ReferenceError | TypeError

text \<open>
  The values a caller can hand to \<^verbatim>\<open>validate\<close> as user name or password. The adapter
  takes them from \<^verbatim>\<open>req.body\<close> or \<^verbatim>\<open>req.query\<close>, so they need not be strings.
\<close>

datatype jsval =
    JUndefined
  | JNull
  | JBool bool
  | JNum int
  | JStr string
  | JArr "jsval list"
  | JObj "(string \<times> jsval) list"

fun typeof :: "jsval \<Rightarrow> string" where
  "typeof JUndefined = ''undefined''"
| "typeof JNull = ''object''"
| "typeof (JBool b) = ''boolean''"
| "typeof (JNum n) = ''number''"
| "typeof (JStr s) = ''string''"
| "typeof (JArr xs) = ''object''"
| "typeof (JObj kvs) = ''object''"

text \<open>
  The characters of a value whose \<^verbatim>\<open>typeof\<close> is \<^verbatim>\<open>'string'\<close>. The code reads
  \<^verbatim>\<open>.length\<close> and passes the value to \<^verbatim>\<open>String.prototype.replace\<close> only behind the
  test \<^verbatim>\<open>typeof v !== 'string'\<close>, so the second equation is never reached from
  \<^verbatim>\<open>validate\<close>.
\<close>

fun string_of :: "jsval \<Rightarrow> string" where
  "string_of (JStr s) = s"
| "string_of v = []"

text \<open>
  \<^verbatim>\<open>Number.prototype.toString(radix)\<close> on a non-negative integer, and the decimal
  rendering used when a number is concatenated to a string: digits \<^verbatim>\<open>0-9a-z\<close>, no
  leading zeros, \<^verbatim>\<open>"0"\<close> for zero.
\<close>

definition digit_char :: "nat \<Rightarrow> char" where
  "digit_char n = (if n < 10 then char_of (48 + n) else char_of (87 + n))"

function radix_string :: "nat \<Rightarrow> nat \<Rightarrow> string" where
  "radix_string b n =
     (if n < b \<or> b < 2 then [digit_char n]
      else radix_string b (n div b) @ [digit_char (n mod b)])"
  by pat_completeness auto
termination
  by (relation "measure snd") auto

declare radix_string.simps [simp del]

text \<open>
  \<^verbatim>\<open>String.prototype.replace(regexp, replacement)\<close> with a global regular expression that
  matches one literal, non-empty text and has no capture groups, and a replacement that is a
  string. This is the only form the repository uses:
  \<^verbatim>\<open>format.replace(new RegExp('\\{' + i + '\\}', 'g'), ...)\<close> in \<^verbatim>\<open>formatGuid\<close> and
  \<^verbatim>\<open>self._search_query.replace(/\{0\}/ig, username)\<close> in \<^verbatim>\<open>search\<close> (the flag
  \<^verbatim>\<open>i\<close> changes nothing there: none of \<^verbatim>\<open>{\<close>, \<^verbatim>\<open>0\<close>, \<^verbatim>\<open>}\<close> has a case variant).

  The replacement string is not inserted as it is: the language expands the patterns
  \<^verbatim>\<open>$$\<close> (a dollar sign), \<^verbatim>\<open>$&\<close> (the matched text), \<^verbatim>\<open>$`\<close> (the subject before
  the match) and \<^verbatim>\<open>$'\<close> (the subject after the match). With no capture groups,
  \<^verbatim>\<open>$1\<close> ... \<^verbatim>\<open>$99\<close> and \<^verbatim>\<open>$<\<close> stay as written.
\<close>

fun get_substitution :: "string \<Rightarrow> string \<Rightarrow> string \<Rightarrow> string \<Rightarrow> string" where
  "get_substitution matched pre post (c # d # r) =
     (if c = CHR ''$'' \<and> d = CHR ''$'' then CHR ''$'' # get_substitution matched pre post r
      else if c = CHR ''$'' \<and> d = CHR ''&'' then matched @ get_substitution matched pre post r
      else if c = CHR ''$'' \<and> d = CHR 0x60 then pre @ get_substitution matched pre post r
      else if c = CHR ''$'' \<and> d = CHR 0x27 then post @ get_substitution matched pre post r
      else c # get_substitution matched pre post (d # r))"
| "get_substitution matched pre post r = r"

text \<open>
  The scan: \<open>pre\<close> is the part of the subject already passed, so that \<^verbatim>\<open>$`\<close> can be
  expanded; matches are found left to right and do not overlap; the text put in place of a
  match is not scanned again.
\<close>

function replace_from :: "string \<Rightarrow> string \<Rightarrow> string \<Rightarrow> string \<Rightarrow> string" where
  "replace_from p r pre [] = []"
| "replace_from p r pre (c # cs) =
     (if p \<noteq> [] \<and> take (length p) (c # cs) = p
      then get_substitution p pre (drop (length p) (c # cs)) r
           @ replace_from p r (pre @ p) (drop (length p) (c # cs))
      else c # replace_from p r (pre @ [c]) cs)"
  by pat_completeness auto
termination
  by (relation "measure (\<lambda>(p, r, pre, s). length s)") auto

definition replace_all :: "string \<Rightarrow> string \<Rightarrow> string \<Rightarrow> string" where
  "replace_all subject p r = replace_from p r [] subject"

section \<open>decodeSearchEntry.js\<close>

subsection \<open>formatGuid\<close>

text \<open>
  \<^verbatim>\<open>
  function formatGuid(data) {
    let format = '{3}{2}{1}{0}-{5}{4}-{7}{6}-{8}{9}-{10}{11}{12}{13}{14}{15}';
    for (let i = 0; i < data.length; i++) {
      let re = new RegExp('\\{' + i + '\\}', 'g');
      let dataStr = data[i].toString(16);
      format = format.replace(re, data[i] >= 16 ? dataStr : '0' + dataStr);
    }
    return format;
  }
  \<close>
  The loop runs over the bytes in order with the index \<open>i\<close> counting up from 0; the
  buffer may have any length.
\<close>

fun formatGuid_loop :: "nat \<Rightarrow> byte list \<Rightarrow> string \<Rightarrow> string" where
  "formatGuid_loop i [] format = format"
| "formatGuid_loop i (d # ds) format =
     formatGuid_loop (Suc i) ds
       (let dataStr = radix_string 16 (unat d)
        in replace_all format (''{'' @ radix_string 10 i @ ''}'')
             (if 16 \<le> unat d then dataStr else ''0'' @ dataStr))"

definition formatGuid :: "byte list \<Rightarrow> string" where
  "formatGuid data =
     formatGuid_loop 0 data ''{3}{2}{1}{0}-{5}{4}-{7}{6}-{8}{9}-{10}{11}{12}{13}{14}{15}''"

text \<open>
  The rendering the specification asks for, in its own words: every byte as exactly two
  lowercase hexadecimal digits, zero-padded. It is what \<^const>\<open>formatGuid\<close> is compared
  with.
\<close>

definition two_hex_digits :: "byte \<Rightarrow> string" where
  "two_hex_digits b =
     [''0123456789abcdef'' ! (unat b div 16), ''0123456789abcdef'' ! (unat b mod 16)]"

subsection \<open>The decoder\<close>

text \<open>
  The values found in a decoded profile: strings, buffers, arrays, and the structured
  representation of a response control, which the directory client supplies and the decoder
  passes on untouched.
\<close>

datatype pval =
    PStr string
  | PBuf "byte list"
  | PArr "pval list"
  | PObj "(string \<times> pval) list"

text \<open>
  A profile is a plain object: its own properties in insertion order. The raw entry is
  what the directory client hands to the \<^verbatim>\<open>searchEntry\<close> listener: \<^verbatim>\<open>entry.dn\<close>
  (modelled by the text its \<^verbatim>\<open>toString()\<close> returns), \<^verbatim>\<open>entry.attributes\<close>, each with
  \<^verbatim>\<open>type\<close>, \<^verbatim>\<open>vals\<close> (the values as strings) and \<^verbatim>\<open>buffers\<close> (the same values as
  raw bytes), and \<^verbatim>\<open>entry.controls\<close>, each with its \<^verbatim>\<open>json\<close> getter.
\<close>

type_synonym profile = "(string \<times> pval) list"

record attribute =
  type :: string
  vals :: "string list"
  buffers :: "byte list list"

record control =
  json :: pval

record entry =
  dn :: string
  attributes :: "attribute list"
  controls :: "control list"

text \<open>
  \<^verbatim>\<open>obj[k] = v\<close> on a plain object: an existing own property is overwritten in place, a
  new one is appended. The key \<^verbatim>\<open>__proto__\<close> is the one exception: the assignment goes
  to the inherited accessor, which changes (or refuses to change) the prototype and never
  creates an own property.
\<close>

definition set_prop :: "string \<Rightarrow> pval \<Rightarrow> profile \<Rightarrow> profile" where
  "set_prop k v obj = (if k = ''__proto__'' then obj else AList.update k v obj)"

text \<open>
  The \<^verbatim>\<open>switch (a.type)\<close>: what \<^verbatim>\<open>item\<close> is bound to. It is an array (of buffers or
  of strings) or, for \<^verbatim>\<open>objectGUID\<close>, the string \<^verbatim>\<open>formatGuid(buf[0])\<close>. When
  \<^verbatim>\<open>buf\<close> is empty, \<^verbatim>\<open>buf[0]\<close> is \<^verbatim>\<open>undefined\<close> and \<^verbatim>\<open>formatGuid\<close> raises a
  \<^verbatim>\<open>TypeError\<close> at \<^verbatim>\<open>data.length\<close>.
\<close>

datatype item = ItemArray "pval list" | ItemString string

definition select_item :: "attribute \<Rightarrow> js_exn + item" where
  "select_item a =
     (if type a = ''thumbnailPhoto'' then Inr (ItemArray (map PBuf (buffers a)))
      else if type a = ''objectGUID'' then
        (case buffers a of
           [] \<Rightarrow> Inl TypeError
         | b # bs \<Rightarrow> Inr (ItemString (formatGuid b)))
      else Inr (ItemArray (map PStr (vals a))))"

text \<open>
  \<^verbatim>\<open>
  if (item && item.length) {
    if (item.length > 1) { obj[a.type] = item.slice(); }
    else { obj[a.type] = item[0]; }
  } else { obj[a.type] = []; }
  \<close>
  the value stored, for an array and for a string (\<^verbatim>\<open>slice()\<close> of a string is the
  string, \<^verbatim>\<open>item[0]\<close> its first character).
\<close>

definition collapse :: "item \<Rightarrow> pval" where
  "collapse it =
     (case it of
        ItemArray xs \<Rightarrow>
          (if xs \<noteq> [] then (if length xs > 1 then PArr xs else hd xs) else PArr [])
      | ItemString s \<Rightarrow>
          (if s \<noteq> [] then (if length s > 1 then PStr s else PStr [hd s]) else PArr []))"

text \<open>The body of \<^verbatim>\<open>entry.attributes.forEach\<close>, and the loop.\<close>

definition decode_attribute :: "profile \<Rightarrow> attribute \<Rightarrow> js_exn + profile" where
  "decode_attribute obj a =
     (case select_item a of
        Inl e \<Rightarrow> Inl e
      | Inr it \<Rightarrow> Inr (set_prop (type a) (collapse it) obj))"

fun decode_attributes :: "profile \<Rightarrow> attribute list \<Rightarrow> js_exn + profile" where
  "decode_attributes obj [] = Inr obj"
| "decode_attributes obj (a # as) =
     (case decode_attribute obj a of
        Inl e \<Rightarrow> Inl e
      | Inr obj' \<Rightarrow> decode_attributes obj' as)"

text \<open>
  \<^verbatim>\<open>obj.controls.push(element.json)\<close>: \<^verbatim>\<open>obj.controls\<close> is read at each push. It is
  the array created with the object unless an attribute of type \<^verbatim>\<open>controls\<close> has
  overwritten it; a string or a buffer has no \<^verbatim>\<open>push\<close>, and calling it raises a
  \<^verbatim>\<open>TypeError\<close>.
\<close>

definition push_control :: "profile \<Rightarrow> control \<Rightarrow> js_exn + profile" where
  "push_control obj c =
     (case map_of obj ''controls'' of
        Some (PArr xs) \<Rightarrow> Inr (AList.update ''controls'' (PArr (xs @ [json c])) obj)
      | _ \<Rightarrow> Inl TypeError)"

fun push_controls :: "profile \<Rightarrow> control list \<Rightarrow> js_exn + profile" where
  "push_controls obj [] = Inr obj"
| "push_controls obj (c # cs) =
     (case push_control obj c of
        Inl e \<Rightarrow> Inl e
      | Inr obj' \<Rightarrow> push_controls obj' cs)"

definition decodeSearchEntry :: "entry \<Rightarrow> js_exn + profile" where
  "decodeSearchEntry e =
     (case decode_attributes [(''dn'', PStr (dn e)), (''controls'', PArr [])] (attributes e) of
        Inl x \<Rightarrow> Inl x
      | Inr obj \<Rightarrow> push_controls obj (controls e))"

text \<open>JavaScript truthiness of a profile value: only the empty string is falsy.\<close>

fun truthy :: "pval \<Rightarrow> bool" where
  "truthy (PStr s) = (s \<noteq> [])"
| "truthy (PBuf b) = True"
| "truthy (PArr xs) = True"
| "truthy (PObj kvs) = True"

section \<open>LdapValidator.js\<close>

subsection \<open>The validator and one attempt\<close>

text \<open>
  The options the constructor receives (those the modelled code reads) and the instance it
  builds: \<^verbatim>\<open>this._options\<close>, a copy of the options, and \<^verbatim>\<open>this._search_query =
  options.search_query || DEFAULT_SEARCH_QUERY\<close>, where an absent and an empty template
  are both falsy.
\<close>

record options =
  url :: string
  base :: string
  bindDN :: string
  bindCredentials :: string
  reconnect :: bool
  search_query :: "string option"

record validator =
  self_options :: options
  self_search_query :: string

definition DEFAULT_SEARCH_QUERY :: string where
  "DEFAULT_SEARCH_QUERY =
     ''(&(objectclass=user)(|(sAMAccountName={0})(UserPrincipalName={0})))''"

definition LdapValidator :: "options \<Rightarrow> validator" where
  "LdapValidator opts =
     \<lparr>self_options = opts,
      self_search_query =
        (case search_query opts of
           None \<Rightarrow> DEFAULT_SEARCH_QUERY
         | Some q \<Rightarrow> if q \<noteq> [] then q else DEFAULT_SEARCH_QUERY)\<rparr>"

text \<open>
  The error objects of the directory client (\<^verbatim>\<open>err.errno\<close> is the only field the code
  reads), and the operations the attempt invokes on its client, logged in order:
  \<^verbatim>\<open>client.bind(dn, credentials, cb)\<close>, \<^verbatim>\<open>client.search(base, {scope, filter}, cb)\<close>,
  \<^verbatim>\<open>client.unbind(cb)\<close> and \<^verbatim>\<open>client.destroy()\<close>.
\<close>

datatype ldap_error = LdapError (errno: string) (message: string)

datatype ldap_op =
    OpBind pval jsval
  | OpSearch string string string
  | OpUnbind
  | OpDestroy

text \<open>
  \<^verbatim>\<open>let client = this._createClient()\<close> stands after the two early returns of
  \<^verbatim>\<open>validate\<close>. The binding exists in the whole function body, and so in the closure
  \<^verbatim>\<open>_callback\<close>, but it is uninitialised until that line has run; reading it before
  raises a \<^verbatim>\<open>ReferenceError\<close>.
\<close>

datatype client_binding = Uninitialized | Client

text \<open>
  \<^verbatim>\<open>async.series([bind, search, unbind, validate], _callback)\<close> runs the four tasks one
  after the other: a task that calls its \<^verbatim>\<open>cb\<close> with an error ends the series, which
  calls \<^verbatim>\<open>_callback(err)\<close>; after the last task the series calls \<^verbatim>\<open>_callback(null)\<close>.
  \<open>pending\<close> is the task whose \<^verbatim>\<open>cb\<close> the series is waiting for.
\<close>

datatype series_task = NotStarted | Binding | Searching | Unbinding | Verifying | Finished

text \<open>
  The variables of one call of \<^verbatim>\<open>validate\<close>, shared by its closures: the parameters,
  \<^verbatim>\<open>notSent\<close>, \<^verbatim>\<open>userProfile\<close> (\<open>None\<close> is \<^verbatim>\<open>null\<close>), \<^verbatim>\<open>isAuthenticated\<close>,
  \<^verbatim>\<open>client\<close>, and the locals \<^verbatim>\<open>entries\<close> and \<^verbatim>\<open>notCbSent\<close> of \<^verbatim>\<open>search\<close>;
  \<open>res_listening\<close> says that the three listeners on the search response are attached.
  Beside them the record logs what the attempt does to the outside: \<open>ops\<close>, the client
  operations; \<open>calls\<close>, the arguments of every invocation of the caller's \<^verbatim>\<open>callback\<close>;
  \<open>thrown\<close>, the exceptions that left \<^verbatim>\<open>validate\<close> or one of its listeners.
\<close>

record attempt =
  self :: validator
  username :: jsval
  password :: jsval
  notSent :: bool
  userProfile :: "profile option"
  isAuthenticated :: bool
  client :: client_binding
  entries :: "entry list"
  notCbSent :: bool
  res_listening :: bool
  pending :: series_task
  ops :: "ldap_op list"
  calls :: "(ldap_error option \<times> profile option) list"
  thrown :: "js_exn list"

subsection \<open>The closures of validate\<close>

text \<open>
  \<^verbatim>\<open>
  function _callback (err) {
    if (client && client.destroy) client.destroy();
    if (notSent) {
      notSent = false;
      return callback(err, isAuthenticated ? userProfile : null);
    }
  }
  \<close>
  An absent or \<^verbatim>\<open>null\<close> error is \<open>None\<close>.
\<close>

definition attempt_callback :: "ldap_error option \<Rightarrow> attempt \<Rightarrow> attempt" where
  "attempt_callback err s =
     (case client s of
        Uninitialized \<Rightarrow> s\<lparr>thrown := thrown s @ [ReferenceError]\<rparr>
      | Client \<Rightarrow>
          (let s' = s\<lparr>ops := ops s @ [OpDestroy]\<rparr>
           in if notSent s'
              then s'\<lparr>notSent := False,
                      calls := calls s' @
                        [(err, if isAuthenticated s' then userProfile s' else None)]\<rparr>
              else s'))"

text \<open>The series ends: its final callback is \<^verbatim>\<open>_callback\<close>.\<close>

definition series_end :: "ldap_error option \<Rightarrow> attempt \<Rightarrow> attempt" where
  "series_end err s = attempt_callback err (s\<lparr>pending := Finished\<rparr>)"

text \<open>
  The fourth task, \<^verbatim>\<open>validate (cb)\<close>:
  \<^verbatim>\<open>
  if (!userProfile || !userProfile.dn) { return cb(); }
  client.bind(userProfile.dn, password, function(err) {
    if (err) { return cb(); }
    isAuthenticated = true;
    return cb();
  });
  \<close>
\<close>

definition verify :: "attempt \<Rightarrow> attempt" where
  "verify s =
     (case userProfile s of
        None \<Rightarrow> series_end None s
      | Some prof \<Rightarrow>
          (case map_of prof ''dn'' of
             None \<Rightarrow> series_end None s
           | Some d \<Rightarrow>
               if \<not> truthy d then series_end None s
               else s\<lparr>pending := Verifying, ops := ops s @ [OpBind d (password s)]\<rparr>))"

definition user_bind_done :: "ldap_error option \<Rightarrow> attempt \<Rightarrow> attempt" where
  "user_bind_done err s =
     (case err of
        Some e \<Rightarrow> series_end None s
      | None \<Rightarrow> series_end None (s\<lparr>isAuthenticated := True\<rparr>))"

text \<open>
  The third task: \<^verbatim>\<open>client.unbind(function (err) { if (err) console.log(...); return cb(err); })\<close>.
\<close>

definition unbind :: "attempt \<Rightarrow> attempt" where
  "unbind s = s\<lparr>pending := Unbinding, ops := ops s @ [OpUnbind]\<rparr>"

definition unbind_done :: "ldap_error option \<Rightarrow> attempt \<Rightarrow> attempt" where
  "unbind_done err s =
     (case err of
        Some e \<Rightarrow> series_end (Some e) s
      | None \<Rightarrow> verify s)"

text \<open>
  The second task, \<^verbatim>\<open>search (cb)\<close>: it declares \<^verbatim>\<open>entries\<close> and \<^verbatim>\<open>notCbSent\<close>,
  builds the filter and calls \<^verbatim>\<open>client.search\<close>. Its \<^verbatim>\<open>_cb\<close> is
  \<^verbatim>\<open>
  function _cb (err) { if (notCbSent) { notCbSent = false; return cb(err); } }
  \<close>
\<close>

definition search :: "attempt \<Rightarrow> attempt" where
  "search s =
     s\<lparr>pending := Searching, entries := [], notCbSent := True,
       ops := ops s @
         [OpSearch (base (self_options (self s))) ''sub''
            (replace_all (self_search_query (self s)) ''{0}'' (string_of (username s)))]\<rparr>"

definition search_cb :: "ldap_error option \<Rightarrow> attempt \<Rightarrow> attempt" where
  "search_cb err s =
     (if notCbSent s
      then (case err of
              Some e \<Rightarrow> series_end (Some e) (s\<lparr>notCbSent := False\<rparr>)
            | None \<Rightarrow> unbind (s\<lparr>notCbSent := False\<rparr>))
      else s)"

text \<open>
  The callback of \<^verbatim>\<open>client.search\<close>: on an error \<^verbatim>\<open>_cb(err)\<close>, otherwise the three
  listeners are attached to the response:
  \<^verbatim>\<open>
  res.on('searchEntry', function (entry) { entries.push(entry); });
  res.on('error', function (e) { ...; return _cb(e); });
  res.on('end', function () {
    if(entries.length) userProfile = decodeSearchEntry(entries[0]);
    return _cb();
  });
  \<close>
  An exception of \<^verbatim>\<open>decodeSearchEntry\<close> leaves the \<^verbatim>\<open>end\<close> listener before the
  assignment and before \<^verbatim>\<open>_cb\<close>.
\<close>

definition search_done :: "ldap_error option \<Rightarrow> attempt \<Rightarrow> attempt" where
  "search_done err s =
     (case err of
        Some e \<Rightarrow> search_cb (Some e) s
      | None \<Rightarrow> s\<lparr>res_listening := True\<rparr>)"

definition on_searchEntry :: "entry \<Rightarrow> attempt \<Rightarrow> attempt" where
  "on_searchEntry e s = s\<lparr>entries := entries s @ [e]\<rparr>"

definition on_error :: "ldap_error \<Rightarrow> attempt \<Rightarrow> attempt" where
  "on_error e s = search_cb (Some e) s"

definition on_end :: "attempt \<Rightarrow> attempt" where
  "on_end s =
     (case entries s of
        [] \<Rightarrow> search_cb None s
      | e # es \<Rightarrow>
          (case decodeSearchEntry e of
             Inl x \<Rightarrow> s\<lparr>thrown := thrown s @ [x]\<rparr>
           | Inr prof \<Rightarrow> search_cb None (s\<lparr>userProfile := Some prof\<rparr>)))"

text \<open>
  The first task:
  \<^verbatim>\<open>client.bind(self._options.bindDN, self._options.bindCredentials, function (err) { ...; return cb(err); })\<close>.
\<close>

definition bind :: "attempt \<Rightarrow> attempt" where
  "bind s =
     s\<lparr>pending := Binding,
       ops := ops s @
         [OpBind (PStr (bindDN (self_options (self s))))
                 (JStr (bindCredentials (self_options (self s))))]\<rparr>"

definition bind_done :: "ldap_error option \<Rightarrow> attempt \<Rightarrow> attempt" where
  "bind_done err s =
     (case err of
        Some e \<Rightarrow> series_end (Some e) s
      | None \<Rightarrow> search s)"

text \<open>
  The listener of the client's \<^verbatim>\<open>error\<close> event:
  \<^verbatim>\<open>
  if (err.errno === 'ECONNRESET' && client.reconnect) return;
  console.log('LDAP connection error: ', err);
  return _callback(err);
  \<close>
  The client carries the \<^verbatim>\<open>reconnect\<close> option it was created with.
\<close>

definition on_client_error :: "ldap_error \<Rightarrow> attempt \<Rightarrow> attempt" where
  "on_client_error err s =
     (if errno err = ''ECONNRESET'' \<and> reconnect (self_options (self s)) then s
      else attempt_callback (Some err) s)"

subsection \<open>validate\<close>

text \<open>
  The synchronous part of \<^verbatim>\<open>validate(username, password, callback)\<close>:
  \<^verbatim>\<open>
  let notSent = true; let userProfile = null; let isAuthenticated = false;
  if (typeof username !== 'string' || !username.length) { return _callback(); }
  else if (typeof password !== 'string' || !password.length) { return _callback(); }
  let client = this._createClient();
  client.on('error', ...);
  async.series([bind, search, unbind, validate], _callback);
  \<close>
  The result is the state of the attempt when \<^verbatim>\<open>validate\<close> returns or raises.
\<close>

definition validate :: "validator \<Rightarrow> jsval \<Rightarrow> jsval \<Rightarrow> attempt" where
  "validate this usr pwd =
     (let s = \<lparr>self = this, username = usr, password = pwd, notSent = True,
                userProfile = None, isAuthenticated = False, client = Uninitialized,
                entries = [], notCbSent = True, res_listening = False,
                pending = NotStarted, ops = [], calls = [], thrown = []\<rparr>
      in if typeof usr \<noteq> ''string'' \<or> length (string_of usr) = 0 then attempt_callback None s
         else if typeof pwd \<noteq> ''string'' \<or> length (string_of pwd) = 0 then attempt_callback None s
         else bind (s\<lparr>client := Client\<rparr>))"

subsection \<open>Events\<close>

text \<open>
  What the directory client can deliver to the attempt afterwards: its \<^verbatim>\<open>error\<close> event,
  the callback of the service bind, the callback of \<^verbatim>\<open>client.search\<close> (with an error or
  with the response object), the three events of the search response, the callback of
  \<^verbatim>\<open>client.unbind\<close> and the callback of the bind as the user. A callback runs only while
  its operation is outstanding and a listener only once it is attached; any other event is
  without effect on the attempt. The listeners on the client and on the search response stay
  attached for the rest of the attempt, whatever has happened. An exception that leaves a
  listener is logged in \<open>thrown\<close> and ends that listener only: the events that follow are
  still taken, as in a process that survives the exception (one that dies with it sees a
  prefix of the events).
\<close>

datatype event =
    ClientError ldap_error
  | ServiceBindDone "ldap_error option"
  | SearchDone "ldap_error option"
  | SearchEntry entry
  | SearchError ldap_error
  | SearchEnd
  | UnbindDone "ldap_error option"
  | UserBindDone "ldap_error option"

fun step :: "attempt \<Rightarrow> event \<Rightarrow> attempt" where
  "step s (ClientError err) = (if client s = Client then on_client_error err s else s)"
| "step s (ServiceBindDone err) = (if pending s = Binding then bind_done err s else s)"
| "step s (SearchDone err) =
     (if pending s = Searching \<and> \<not> res_listening s then search_done err s else s)"
| "step s (SearchEntry e) = (if res_listening s then on_searchEntry e s else s)"
| "step s (SearchError err) = (if res_listening s then on_error err s else s)"
| "step s SearchEnd = (if res_listening s then on_end s else s)"
| "step s (UnbindDone err) = (if pending s = Unbinding then unbind_done err s else s)"
| "step s (UserBindDone err) = (if pending s = Verifying then user_bind_done err s else s)"

fun run :: "attempt \<Rightarrow> event list \<Rightarrow> attempt" where
  "run s [] = s"
| "run s (ev # evs) = run (step s ev) evs"

text \<open>
  A connection error that ends the attempt: every \<^verbatim>\<open>error\<close> event except a connection
  reset on a client that reconnects by itself.
\<close>

fun fatal :: "validator \<Rightarrow> event \<Rightarrow> bool" where
  "fatal this (ClientError err) =
     (\<not> (errno err = ''ECONNRESET'' \<and> reconnect (self_options this)))"
| "fatal this ev = False"

text \<open>
  The events that can reach the attempt between the end of a result stream without entries
  and the callback of the unbind, when the response delivers no entry after its end:
  everything but a further entry and that callback itself.
\<close>

fun between_end_and_unbind :: "event \<Rightarrow> bool" where
  "between_end_and_unbind (SearchEntry e) = False"
| "between_end_and_unbind (UnbindDone r) = False"
| "between_end_and_unbind ev = True"

definition destroys :: "attempt \<Rightarrow> nat" where
  "destroys s = length (filter (\<lambda>op. op = OpDestroy) (ops s))"

section \<open>What the specification says, for comparison\<close>

text \<open>
  The collapsing rule in the specification's words: an attribute with zero values decodes
  to the empty array, with one value to the scalar, with two or more to the array.
\<close>

fun collapsed_values :: "string list \<Rightarrow> pval" where
  "collapsed_values [] = PArr []"
| "collapsed_values [v] = PStr v"
| "collapsed_values (v # w # vs) = PArr (map PStr (v # w # vs))"

text \<open>
  The filter in the specification's words: the template with every occurrence of the
  placeholder replaced by the user name as it is, character for character.
\<close>

function substitute_literal :: "string \<Rightarrow> string \<Rightarrow> string \<Rightarrow> string" where
  "substitute_literal [] p u = []"
| "substitute_literal (c # cs) p u =
     (if p \<noteq> [] \<and> take (length p) (c # cs) = p
      then u @ substitute_literal (drop (length p) (c # cs)) p u
      else c # substitute_literal cs p u)"
  by pat_completeness auto
termination
  by (relation "measure (\<lambda>(s, p, u). length s)") auto

section \<open>Fixtures\<close>

text \<open>
  Options with the default search query, without and with the client's automatic
  reconnection, two error objects, and directory entries (the one of the specification's
  end-to-end scenario among them), used where a statement is evaluated on a concrete
  input.
\<close>

definition example_options :: options where
  "example_options =
     \<lparr>url = ''ldap://dc.example.com'', base = ''DC=example,DC=com'', bindDN = ''svc'',
      bindCredentials = ''svc-secret'', reconnect = False, search_query = None\<rparr>"

definition reconnecting_options :: options where
  "reconnecting_options =
     \<lparr>url = ''ldap://dc.example.com'', base = ''DC=example,DC=com'', bindDN = ''svc'',
      bindCredentials = ''svc-secret'', reconnect = True, search_query = None\<rparr>"

definition timeout_error :: ldap_error where
  "timeout_error = LdapError ''ETIMEDOUT'' ''connect ETIMEDOUT''"

definition closed_error :: ldap_error where
  "closed_error = LdapError ''ECONNRESET'' ''connection closed''"

definition alice :: entry where
  "alice = \<lparr>dn = ''CN=Alice,DC=example,DC=com'', attributes = [], controls = []\<rparr>"

definition staff_entry :: entry where
  "staff_entry =
     \<lparr>dn = ''CN=Bob,DC=example,DC=com'',
      attributes =
        [\<lparr>type = ''description'', vals = [], buffers = []\<rparr>,
         \<lparr>type = ''mail'', vals = [''bob@example.com''], buffers = []\<rparr>,
         \<lparr>type = ''memberOf'', vals = [''CN=Staff'', ''CN=Ops''], buffers = []\<rparr>],
      controls = []\<rparr>"

definition two_mail_entry :: entry where
  "two_mail_entry =
     \<lparr>dn = ''CN=Carol,DC=example,DC=com'',
      attributes =
        [\<lparr>type = ''mail'', vals = [''carol@example.com''], buffers = []\<rparr>,
         \<lparr>type = ''mail'', vals = [''c@example.com'', ''carol@example.org''], buffers = []\<rparr>],
      controls = []\<rparr>"

section \<open>Invariants of an attempt\<close>

text \<open>
  What holds in each phase of the series, in every state an attempt can reach: the client
  exists once the series has started; while the search is outstanding its \<^verbatim>\<open>_cb\<close> has
  not fired and no profile has been decoded; \<^verbatim>\<open>_cb\<close> has fired once the series is
  past the search; nobody is authenticated before the series has ended; the bind as the
  user is outstanding only with a profile.
\<close>

definition phase_inv :: "attempt \<Rightarrow> bool" where
  "phase_inv s =
     (case pending s of
        NotStarted \<Rightarrow> \<not> res_listening s \<and> userProfile s = None \<and> \<not> isAuthenticated s
      | Binding \<Rightarrow>
          client s = Client \<and> \<not> res_listening s \<and> userProfile s = None \<and> \<not> isAuthenticated s
      | Searching \<Rightarrow>
          client s = Client \<and> notCbSent s \<and> userProfile s = None \<and> \<not> isAuthenticated s
      | Unbinding \<Rightarrow>
          client s = Client \<and> res_listening s \<and> \<not> notCbSent s \<and> \<not> isAuthenticated s
      | Verifying \<Rightarrow>
          client s = Client \<and> res_listening s \<and> \<not> notCbSent s \<and> \<not> isAuthenticated s \<and>
          userProfile s \<noteq> None
      | Finished \<Rightarrow>
          client s = Client \<and> (\<not> res_listening s \<or> \<not> notCbSent s) \<and>
          (res_listening s \<or> userProfile s = None))"

text \<open>
  The latch: the callback has been invoked exactly when \<^verbatim>\<open>notSent\<close> is false, then
  exactly once, and not without a preceding \<^verbatim>\<open>client.destroy()\<close>.
\<close>

definition latch_inv :: "attempt \<Rightarrow> bool" where
  "latch_inv s =
     ((if notSent s then calls s = [] else length (calls s) = 1) \<and>
      (calls s = [] \<or> 1 \<le> destroys s))"

text \<open>
  The state between the end of a result stream without entries and the callback of the
  unbind: the unbind is outstanding, no entry has arrived and no profile has been decoded.
\<close>

definition awaiting_unbind :: "attempt \<Rightarrow> bool" where
  "awaiting_unbind s =
     (pending s = Unbinding \<and> entries s = [] \<and> userProfile s = None \<and> \<not> notCbSent s \<and>
      client s = Client \<and> \<not> isAuthenticated s)"

section \<open>The string primitives\<close>

text \<open>
  Rendering a byte as the loop of \<^verbatim>\<open>formatGuid\<close> does it (the hexadecimal string,
  with a leading zero below 16) gives the two digits of \<^const>\<open>two_hex_digits\<close>.
\<close>

lemma digit_char_hex: "n < 16 \<Longrightarrow> digit_char n = ''0123456789abcdef'' ! n"
proof -
  assume "n < 16"
  then have "n \<in> set [0..<16]" by simp
  then have "n \<in> {0,1,2,3,4,5,6,7,8,9,10,11,12,13,14,15}"
    by (simp add: upt_rec numeral_eq_Suc)
  then show ?thesis
    by (elim insertE emptyE; hypsubst; code_simp)
qed

lemma padded_hex:
  "(let dataStr = radix_string 16 (unat (d::byte))
    in (if 16 \<le> unat d then dataStr else ''0'' @ dataStr)) = two_hex_digits d"
proof -
  have lt: "unat d < 256" using unsigned_less [of d, where ?'a = nat] by simp
  show ?thesis
  proof (cases "16 \<le> unat d")
    case True
    then have "radix_string 16 (unat d) = radix_string 16 (unat d div 16) @ [digit_char (unat d mod 16)]"
      by (subst radix_string.simps) simp
    moreover have small: "unat d div 16 < 16" using lt by simp
    then have "radix_string 16 (unat d div 16) = [digit_char (unat d div 16)]"
      by (subst radix_string.simps) simp
    ultimately show ?thesis using True small
      by (simp add: two_hex_digits_def digit_char_hex)
  next
    case False
    then have "radix_string 16 (unat d) = [digit_char (unat d)]"
      by (subst radix_string.simps) simp
    then show ?thesis using False
      by (simp add: two_hex_digits_def digit_char_hex)
  qed
qed

text \<open>
  A replacement without a dollar sign is inserted as it is, and the scan then no longer
  depends on the text already passed.
\<close>

lemma get_substitution_plain:
  "CHR ''$'' \<notin> set r \<Longrightarrow> get_substitution m pre post r = r"
  by (induction m pre post r rule: get_substitution.induct) auto

lemma replace_from_pre:
  "CHR ''$'' \<notin> set r \<Longrightarrow> replace_from p r pre s = replace_from p r pre' s"
proof (induction s arbitrary: pre pre' rule: length_induct)
  case (1 s)
  show ?case
  proof (cases s)
    case Nil
    then show ?thesis by simp
  next
    case (Cons c cs)
    show ?thesis
    proof (cases "p \<noteq> [] \<and> take (length p) (c # cs) = p")
      case True
      then have "length (drop (length p) (c # cs)) < length s"
        using Cons by (cases p) auto
      then have "replace_from p r (pre @ p) (drop (length p) (c # cs))
                 = replace_from p r (pre' @ p) (drop (length p) (c # cs))"
        using 1 by blast
      then show ?thesis using True Cons 1(2) by (simp add: get_substitution_plain)
    next
      case False
      have "replace_from p r (pre @ [c]) cs = replace_from p r (pre' @ [c]) cs"
        using 1 Cons by simp
      then show ?thesis using False Cons by auto
    qed
  qed
qed

lemma replace_from_Cons:
  assumes "CHR ''$'' \<notin> set r"
  shows "replace_from p r [] (c # cs) =
     (if p \<noteq> [] \<and> take (length p) (c # cs) = p
      then r @ replace_from p r [] (drop (length p) (c # cs))
      else c # replace_from p r [] cs)"
proof -
  have "replace_from p r ([] @ p) (drop (length p) (c # cs)) = replace_from p r [] (drop (length p) (c # cs))"
    using assms by (rule replace_from_pre)
  moreover have "replace_from p r ([] @ [c]) cs = replace_from p r [] cs"
    using assms by (rule replace_from_pre)
  ultimately show ?thesis
    using assms by (cases "p = []") (simp_all add: get_substitution_plain)
qed

lemma replace_from_skip:
  assumes "CHR ''{'' \<notin> set xs" and "CHR ''$'' \<notin> set r"
  shows "replace_from (CHR ''{'' # p) r [] (xs @ ys) = xs @ replace_from (CHR ''{'' # p) r [] ys"
  using assms(1)
proof (induction xs)
  case Nil
  then show ?case by simp
next
  case (Cons x xs)
  then have "x \<noteq> CHR ''{''" by auto
  then show ?case using Cons assms(2)
    by (simp add: replace_from_Cons del: replace_from.simps)
qed

lemma replace_all_literal:
  assumes "CHR ''$'' \<notin> set u"
  shows "replace_all t p u = substitute_literal t p u"
proof -
  have "replace_from p u [] t = substitute_literal t p u"
  proof (induction t rule: length_induct)
    case (1 t)
    show ?case
    proof (cases t)
      case Nil
      then show ?thesis by simp
    next
      case (Cons c cs)
      show ?thesis
      proof (cases "p \<noteq> [] \<and> take (length p) (c # cs) = p")
        case True
        then have "length (drop (length p) (c # cs)) < length t"
          using Cons by (cases p) auto
        then have "replace_from p u [] (drop (length p) (c # cs))
                     = substitute_literal (drop (length p) (c # cs)) p u"
          using 1 by blast
        then show ?thesis using True Cons assms
          by (simp add: replace_from_Cons del: replace_from.simps)
      next
        case False
        have "replace_from p u [] cs = substitute_literal cs p u"
          using 1 Cons by simp
        then show ?thesis using False Cons assms
          by (auto simp: replace_from_Cons simp del: replace_from.simps)
      qed
    qed
  qed
  then show ?thesis by (simp add: replace_all_def)
qed

section \<open>formatGuid on sixteen bytes\<close>

lemma two_hex_digits_chars:
  "set (two_hex_digits b) \<subseteq> set ''0123456789abcdef''"
proof -
  have lt: "unat b < 256" using unsigned_less [of b, where ?'a = nat] by simp
  have "unat b div 16 < length ''0123456789abcdef''" using lt by simp
  then have 1: "''0123456789abcdef'' ! (unat b div 16) \<in> set ''0123456789abcdef''"
    by (rule nth_mem)
  have "unat b mod 16 < length ''0123456789abcdef''" by simp
  then have 2: "''0123456789abcdef'' ! (unat b mod 16) \<in> set ''0123456789abcdef''"
    by (rule nth_mem)
  show ?thesis using 1 2 unfolding two_hex_digits_def by simp
qed

lemma two_hex_digits_no_brace: "CHR ''{'' \<notin> set (two_hex_digits b)"
  using two_hex_digits_chars [of b] by auto

lemma two_hex_digits_no_dollar: "CHR ''$'' \<notin> set (two_hex_digits b)"
  using two_hex_digits_chars [of b] by auto

lemma length_two_hex_digits: "length (two_hex_digits b) = 2"
  by (simp add: two_hex_digits_def)

lemma formatGuid_loop_Cons:
  "formatGuid_loop i (d # ds) format =
     formatGuid_loop (i + 1) ds
       (replace_all format (''{'' @ radix_string 10 i @ ''}'') (two_hex_digits d))"
  using padded_hex [of d] by (simp add: Let_def)

lemma decimal_indices:
  "radix_string 10 0 = ''0''" "radix_string 10 1 = ''1''" "radix_string 10 2 = ''2''"
  "radix_string 10 3 = ''3''" "radix_string 10 4 = ''4''" "radix_string 10 5 = ''5''"
  "radix_string 10 6 = ''6''" "radix_string 10 7 = ''7''" "radix_string 10 8 = ''8''"
  "radix_string 10 9 = ''9''" "radix_string 10 10 = ''10''" "radix_string 10 11 = ''11''"
  "radix_string 10 12 = ''12''" "radix_string 10 13 = ''13''" "radix_string 10 14 = ''14''"
  "radix_string 10 15 = ''15''"
  by code_simp+

lemma formatGuid_16:
  "formatGuid [b0, b1, b2, b3, b4, b5, b6, b7, b8, b9, b10, b11, b12, b13, b14, b15] =
     two_hex_digits b3 @ two_hex_digits b2 @ two_hex_digits b1 @ two_hex_digits b0 @ ''-'' @
     two_hex_digits b5 @ two_hex_digits b4 @ ''-'' @
     two_hex_digits b7 @ two_hex_digits b6 @ ''-'' @
     two_hex_digits b8 @ two_hex_digits b9 @ ''-'' @
     two_hex_digits b10 @ two_hex_digits b11 @ two_hex_digits b12 @ two_hex_digits b13 @
     two_hex_digits b14 @ two_hex_digits b15"
  unfolding formatGuid_def
  apply (simp only: formatGuid_loop_Cons formatGuid_loop.simps(1) add_0 one_add_one
           numeral_plus_one arith_simps decimal_indices)
  apply (simp add: replace_all_def replace_from_Cons replace_from_skip
           two_hex_digits_no_brace two_hex_digits_no_dollar del: replace_from.simps(2))
  done

lemma fixture_digits:
  "two_hex_digits 1 = ''01''" "two_hex_digits 2 = ''02''" "two_hex_digits 3 = ''03''"
  "two_hex_digits 4 = ''04''" "two_hex_digits 5 = ''05''" "two_hex_digits 6 = ''06''"
  "two_hex_digits 7 = ''07''" "two_hex_digits 8 = ''08''" "two_hex_digits 9 = ''09''"
  "two_hex_digits 10 = ''0a''" "two_hex_digits 11 = ''0b''" "two_hex_digits 12 = ''0c''"
  "two_hex_digits 13 = ''0d''" "two_hex_digits 14 = ''0e''" "two_hex_digits 15 = ''0f''"
  "two_hex_digits 16 = ''10''"
  by (simp_all add: two_hex_digits_def)

text \<open>
  Claim C7. For every 16-byte input \<^verbatim>\<open>formatGuid\<close> returns (as a function, so
  deterministically) the bytes 3, 2, 1, 0, a hyphen, the bytes 5, 4, a hyphen, the bytes
  7, 6, a hyphen, the bytes 8, 9, a hyphen and the bytes 10 to 15, every byte as exactly
  two zero-padded lowercase hexadecimal digits: 36 characters, all of them lowercase
  hexadecimal digits or hyphens. The bytes \<^verbatim>\<open>01 02 ... 10\<close> give
  \<^verbatim>\<open>04030201-0605-0807-090a-0b0c0d0e0f10\<close>.
\<close>

theorem formatGuid_layout:
  "formatGuid [b0, b1, b2, b3, b4, b5, b6, b7, b8, b9, b10, b11, b12, b13, b14, b15] =
     two_hex_digits b3 @ two_hex_digits b2 @ two_hex_digits b1 @ two_hex_digits b0 @ ''-'' @
     two_hex_digits b5 @ two_hex_digits b4 @ ''-'' @
     two_hex_digits b7 @ two_hex_digits b6 @ ''-'' @
     two_hex_digits b8 @ two_hex_digits b9 @ ''-'' @
     two_hex_digits b10 @ two_hex_digits b11 @ two_hex_digits b12 @ two_hex_digits b13 @
     two_hex_digits b14 @ two_hex_digits b15
   \<and> length (formatGuid [b0, b1, b2, b3, b4, b5, b6, b7, b8, b9, b10, b11, b12, b13, b14, b15]) = 36
   \<and> set (formatGuid [b0, b1, b2, b3, b4, b5, b6, b7, b8, b9, b10, b11, b12, b13, b14, b15])
       \<subseteq> set ''0123456789abcdef-''
   \<and> formatGuid [1, 2, 3, 4, 5, 6, 7, 8, 9, 10, 11, 12, 13, 14, 15, 16]
       = ''04030201-0605-0807-090a-0b0c0d0e0f10''"
proof (intro conjI)
  show "set (formatGuid [b0, b1, b2, b3, b4, b5, b6, b7, b8, b9, b10, b11, b12, b13, b14, b15])
       \<subseteq> set ''0123456789abcdef-''"
    using two_hex_digits_chars unfolding formatGuid_16 by fastforce
qed (simp_all only: formatGuid_16 fixture_digits length_append length_two_hex_digits, simp_all)

section \<open>The decoder\<close>

text \<open>The only exception the decoder raises while it walks the attributes is a \<^verbatim>\<open>TypeError\<close>.\<close>

lemma select_item_exn: "select_item a = Inl x \<Longrightarrow> x = TypeError"
  by (auto simp: select_item_def split: if_splits list.splits)

lemma decode_attribute_exn: "decode_attribute obj a = Inl x \<Longrightarrow> x = TypeError"
  by (auto simp: decode_attribute_def split: sum.splits dest: select_item_exn)

lemma decode_attribute_guid_empty:
  "type a = ''objectGUID'' \<Longrightarrow> buffers a = [] \<Longrightarrow> decode_attribute obj a = Inl TypeError"
  by (simp add: decode_attribute_def select_item_def)

lemma decode_attributes_guid_empty:
  assumes "a \<in> set as" and "type a = ''objectGUID''" and "buffers a = []"
  shows "decode_attributes obj as = Inl TypeError"
  using assms(1)
proof (induction as arbitrary: obj)
  case Nil
  then show ?case by simp
next
  case (Cons a' as)
  show ?case
  proof (cases "decode_attribute obj a'")
    case (Inl x)
    then show ?thesis using decode_attribute_exn [OF Inl] by simp
  next
    case (Inr obj')
    then have "a' \<noteq> a" using decode_attribute_guid_empty [OF assms(2,3), of obj] by auto
    then have "a \<in> set as" using Cons.prems by auto
    then show ?thesis using Cons.IH Inr by simp
  qed
qed

text \<open>
  Claim C3 says that decoding a well-formed entry never fails, also when an attribute of
  type \<^verbatim>\<open>objectGUID\<close> has an empty value list. The code does fail there: for every entry
  with such an attribute, whatever else it holds, \<^verbatim>\<open>decodeSearchEntry\<close> raises a
  \<^verbatim>\<open>TypeError\<close>, since \<^verbatim>\<open>formatGuid\<close> is handed \<^verbatim>\<open>buf[0]\<close>, which is
  \<^verbatim>\<open>undefined\<close>.
\<close>

theorem objectGUID_without_value_raises:
  assumes "a \<in> set (attributes e)" and "type a = ''objectGUID''" and "buffers a = []"
  shows "decodeSearchEntry e = Inl TypeError"
  using decode_attributes_guid_empty [OF assms] by (simp add: decodeSearchEntry_def)

theorem objectGUID_without_value_raises_witness:
  "decodeSearchEntry
     \<lparr>dn = ''CN=Alice,DC=example,DC=com'',
      attributes = [\<lparr>type = ''objectGUID'', vals = [], buffers = []\<rparr>],
      controls = []\<rparr> = Inl TypeError"
  using objectGUID_without_value_raises
    [of "\<lparr>type = ''objectGUID'', vals = [], buffers = []\<rparr>"
        "\<lparr>dn = ''CN=Alice,DC=example,DC=com'',
          attributes = [\<lparr>type = ''objectGUID'', vals = [], buffers = []\<rparr>],
          controls = []\<rparr>"]
  by simp

text \<open>
  For an attribute that is not one of the two special types, the loop body stores the
  collapsed value list under the attribute's type.
\<close>

lemma collapse_values: "collapse (ItemArray (map PStr vs)) = collapsed_values vs"
  by (cases vs rule: collapsed_values.cases) (simp_all add: collapse_def)

lemma decode_attribute_plain:
  "type a \<noteq> ''thumbnailPhoto'' \<Longrightarrow> type a \<noteq> ''objectGUID'' \<Longrightarrow>
   decode_attribute obj a = Inr (set_prop (type a) (collapsed_values (vals a)) obj)"
  by (simp add: decode_attribute_def select_item_def collapse_values)

lemma map_of_set_prop:
  "map_of (set_prop k v obj) k' =
     (if k = ''__proto__'' then map_of obj k' else if k' = k then Some v else map_of obj k')"
  by (simp add: set_prop_def update_conv')

lemma decode_attribute_other:
  "decode_attribute obj a = Inr obj' \<Longrightarrow> k \<noteq> type a \<Longrightarrow> map_of obj' k = map_of obj k"
  by (auto simp: decode_attribute_def map_of_set_prop split: sum.splits)

lemma decode_attributes_other:
  "decode_attributes obj as = Inr obj' \<Longrightarrow> k \<notin> type ` set as \<Longrightarrow> map_of obj' k = map_of obj k"
proof (induction as arbitrary: obj)
  case Nil
  then show ?case by simp
next
  case (Cons a as)
  then obtain obj1 where 1: "decode_attribute obj a = Inr obj1"
    and 2: "decode_attributes obj1 as = Inr obj'"
    by (auto split: sum.splits)
  have "map_of obj' k = map_of obj1 k" using Cons.IH [OF 2] Cons.prems(2) by simp
  also have "\<dots> = map_of obj k" using decode_attribute_other [OF 1] Cons.prems(2) by simp
  finally show ?case .
qed

lemma decode_attributes_append:
  "decode_attributes obj (xs @ ys) =
     (case decode_attributes obj xs of Inl x \<Rightarrow> Inl x | Inr obj' \<Rightarrow> decode_attributes obj' ys)"
  by (induction xs arbitrary: obj) (simp_all split: sum.splits)

lemma decode_attributes_last:
  assumes "decode_attributes obj (front @ a # rear) = Inr obj'"
    and "type a \<notin> type ` set rear"
    and "type a \<noteq> ''thumbnailPhoto''" and "type a \<noteq> ''objectGUID''"
    and "type a \<noteq> ''__proto__''"
  shows "map_of obj' (type a) = Some (collapsed_values (vals a))"
proof -
  from assms(1) obtain obj1 where 1: "decode_attributes obj front = Inr obj1"
    and 2: "decode_attributes obj1 (a # rear) = Inr obj'"
    by (auto simp: decode_attributes_append split: sum.splits)
  from 2 decode_attribute_plain [OF assms(3,4), of obj1]
  have 3: "decode_attributes (set_prop (type a) (collapsed_values (vals a)) obj1) rear = Inr obj'"
    by simp
  have "map_of obj' (type a) = map_of (set_prop (type a) (collapsed_values (vals a)) obj1) (type a)"
    using decode_attributes_other [OF 3 assms(2)] .
  then show ?thesis using assms(5) by (simp add: map_of_set_prop)
qed

lemma push_control_other:
  "push_control obj c = Inr obj' \<Longrightarrow> k \<noteq> ''controls'' \<Longrightarrow> map_of obj' k = map_of obj k"
  by (auto simp: push_control_def update_conv' split: option.splits pval.splits)

lemma push_controls_other:
  "push_controls obj cs = Inr obj' \<Longrightarrow> k \<noteq> ''controls'' \<Longrightarrow> map_of obj' k = map_of obj k"
proof (induction cs arbitrary: obj)
  case Nil
  then show ?case by simp
next
  case (Cons c cs)
  then obtain obj1 where 1: "push_control obj c = Inr obj1"
    and 2: "push_controls obj1 cs = Inr obj'"
    by (auto split: sum.splits)
  show ?case using Cons.IH [OF 2 Cons.prems(2)] push_control_other [OF 1 Cons.prems(2)] by simp
qed

text \<open>
  Claim C8 says that for every attribute outside the two special types a one-element value
  list decodes to the scalar in the decoded entry (and likewise for no value and for several).
  The decoder does assign the collapsed value list to \<^verbatim>\<open>obj[a.type]\<close>, but the key can
  be written again: of two attributes of the same type the later one wins, so the single
  value of the first \<^verbatim>\<open>mail\<close> attribute is not what the decoded entry holds.
\<close>

theorem repeated_attribute_counterexample:
  "\<lparr>type = ''mail'', vals = [''carol@example.com''], buffers = []\<rparr> \<in> set (attributes two_mail_entry) \<and>
   decodeSearchEntry two_mail_entry =
     Inr [(''dn'', PStr ''CN=Carol,DC=example,DC=com''), (''controls'', PArr []),
          (''mail'', PArr [PStr ''c@example.com'', PStr ''carol@example.org''])] \<and>
   map_of [(''dn'', PStr ''CN=Carol,DC=example,DC=com''), (''controls'', PArr []),
          (''mail'', PArr [PStr ''c@example.com'', PStr ''carol@example.org''])] ''mail''
     \<noteq> Some (collapsed_values [''carol@example.com''])"
  by (simp add: two_mail_entry_def decodeSearchEntry_def decode_attribute_def select_item_def
        collapse_def set_prop_def)

text \<open>
  Claim C8, amended. For every attribute whose type is neither \<^verbatim>\<open>thumbnailPhoto\<close> nor
  \<^verbatim>\<open>objectGUID\<close>, the loop body assigns to \<^verbatim>\<open>obj[a.type]\<close> the collapsed value list:
  the empty array for no value, the value itself for one, the array of the values for two
  or more. The decoded entry holds that value under the attribute's type provided no later
  attribute of the entry has the same type, the type is not \<^verbatim>\<open>__proto__\<close> (an
  assignment to it creates no property), and the type is not \<^verbatim>\<open>controls\<close> when the
  entry has response controls (they are pushed to that key).
\<close>

theorem collapsing_rule:
  assumes "type a \<noteq> ''thumbnailPhoto''" and "type a \<noteq> ''objectGUID''"
  shows "decode_attribute obj a = Inr (set_prop (type a) (collapsed_values (vals a)) obj) \<and>
         (decodeSearchEntry e = Inr prof \<longrightarrow> attributes e = front @ a # rear \<longrightarrow>
          type a \<notin> type ` set rear \<longrightarrow> type a \<noteq> ''__proto__'' \<longrightarrow>
          (type a \<noteq> ''controls'' \<or> controls e = []) \<longrightarrow>
          map_of prof (type a) = Some (collapsed_values (vals a)))"
proof (intro conjI impI)
  show "decode_attribute obj a = Inr (set_prop (type a) (collapsed_values (vals a)) obj)"
    using assms by (rule decode_attribute_plain)
next
  assume dec: "decodeSearchEntry e = Inr prof" and split: "attributes e = front @ a # rear"
    and last: "type a \<notin> type ` set rear" and proto: "type a \<noteq> ''__proto__''"
    and ctl: "type a \<noteq> ''controls'' \<or> controls e = []"
  from dec obtain obj1 where 1:
      "decode_attributes [(''dn'', PStr (dn e)), (''controls'', PArr [])] (attributes e) = Inr obj1"
    and 2: "push_controls obj1 (controls e) = Inr prof"
    by (auto simp: decodeSearchEntry_def split: sum.splits)
  have "map_of obj1 (type a) = Some (collapsed_values (vals a))"
    using decode_attributes_last [OF 1 [unfolded split] last assms proto] .
  moreover have "map_of prof (type a) = map_of obj1 (type a)"
    using ctl
  proof
    assume "type a \<noteq> ''controls''"
    then show ?thesis using push_controls_other [OF 2] by simp
  next
    assume "controls e = []"
    then show ?thesis using 2 by simp
  qed
  ultimately show "map_of prof (type a) = Some (collapsed_values (vals a))" by simp
qed

lemmas decode_defs =
  decodeSearchEntry_def decode_attribute_def select_item_def collapse_def set_prop_def
  push_control_def alice_def staff_entry_def

theorem collapsing_rule_witness:
  "decodeSearchEntry staff_entry =
     Inr [(''dn'', PStr ''CN=Bob,DC=example,DC=com''), (''controls'', PArr []),
          (''description'', PArr []), (''mail'', PStr ''bob@example.com''),
          (''memberOf'', PArr [PStr ''CN=Staff'', PStr ''CN=Ops''])] \<and>
   map_of [(''dn'', PStr ''CN=Bob,DC=example,DC=com''), (''controls'', PArr []),
          (''description'', PArr []), (''mail'', PStr ''bob@example.com''),
          (''memberOf'', PArr [PStr ''CN=Staff'', PStr ''CN=Ops''])] ''mail''
     = Some (PStr ''bob@example.com'')"
proof -
  let ?a = "\<lparr>type = ''mail'', vals = [''bob@example.com''], buffers = []\<rparr>"
  let ?front = "[\<lparr>type = ''description'', vals = [], buffers = []\<rparr>]"
  let ?rear = "[\<lparr>type = ''memberOf'', vals = [''CN=Staff'', ''CN=Ops''], buffers = []\<rparr>]"
  let ?prof = "[(''dn'', PStr ''CN=Bob,DC=example,DC=com''), (''controls'', PArr []),
          (''description'', PArr []), (''mail'', PStr ''bob@example.com''),
          (''memberOf'', PArr [PStr ''CN=Staff'', PStr ''CN=Ops''])]"
  have d: "decodeSearchEntry staff_entry = Inr ?prof"
    by (simp add: decode_defs)
  have t: "type ?a \<noteq> ''thumbnailPhoto''" "type ?a \<noteq> ''objectGUID''" by simp_all
  from collapsing_rule [OF t, of "[]" staff_entry ?prof ?front ?rear] d
  show ?thesis by (simp add: staff_entry_def)
qed

text \<open>
  Where decoding does succeed: when every \<^verbatim>\<open>objectGUID\<close> attribute carries at least one
  buffer and no attribute is called \<^verbatim>\<open>controls\<close>. An attribute of that name with a
  single value replaces the array that the response controls are pushed to, and the first
  push raises.
\<close>

lemma decode_attributes_succeeds:
  assumes "\<forall>a \<in> set as. type a = ''objectGUID'' \<longrightarrow> buffers a \<noteq> []"
  shows "\<exists>obj'. decode_attributes obj as = Inr obj'"
  using assms
proof (induction as arbitrary: obj)
  case Nil
  then show ?case by simp
next
  case (Cons a as)
  have "\<exists>obj1. decode_attribute obj a = Inr obj1"
    using Cons.prems by (auto simp: decode_attribute_def select_item_def split: list.splits)
  then obtain obj1 where "decode_attribute obj a = Inr obj1" ..
  then show ?case using Cons.IH [of obj1] Cons.prems by simp
qed

lemma push_controls_succeeds:
  "map_of obj ''controls'' = Some (PArr xs) \<Longrightarrow> \<exists>obj'. push_controls obj cs = Inr obj'"
proof (induction cs arbitrary: obj xs)
  case Nil
  then show ?case by simp
next
  case (Cons c cs)
  let ?obj1 = "AList.update ''controls'' (PArr (xs @ [json c])) obj"
  have 1: "push_control obj c = Inr ?obj1" using Cons.prems by (simp add: push_control_def)
  have "map_of ?obj1 ''controls'' = Some (PArr (xs @ [json c]))" by (simp add: update_conv')
  from Cons.IH [OF this] 1 show ?case by simp
qed

lemma decodeSearchEntry_succeeds:
  assumes "\<forall>a \<in> set (attributes e). type a = ''objectGUID'' \<longrightarrow> buffers a \<noteq> []"
    and "''controls'' \<notin> type ` set (attributes e)"
  shows "\<exists>prof. decodeSearchEntry e = Inr prof"
proof -
  let ?obj = "[(''dn'', PStr (dn e)), (''controls'', PArr [])]"
  obtain obj1 where 1: "decode_attributes ?obj (attributes e) = Inr obj1"
    using decode_attributes_succeeds [OF assms(1)] by blast
  have "map_of obj1 ''controls'' = map_of ?obj ''controls''"
    using decode_attributes_other [OF 1 assms(2)] .
  then have "map_of obj1 ''controls'' = Some (PArr [])" by simp
  from push_controls_succeeds [OF this] 1 show ?thesis
    by (simp add: decodeSearchEntry_def)
qed

lemma controls_attribute_raises:
  "decodeSearchEntry
     \<lparr>dn = ''CN=Alice,DC=example,DC=com'',
      attributes = [\<lparr>type = ''controls'', vals = [''x''], buffers = []\<rparr>],
      controls = [\<lparr>json = PObj [(''type'', PStr ''1.2.840.113556.1.4.319'')]\<rparr>]\<rparr>
   = Inl TypeError"
  by (simp add: decodeSearchEntry_def decode_attribute_def select_item_def collapse_def
        set_prop_def push_control_def)

section \<open>One attempt\<close>

subsection \<open>What the final callback and the end of the series change\<close>

lemma callback_fields [simp]:
  "pending (attempt_callback err s) = pending s"
  "res_listening (attempt_callback err s) = res_listening s"
  "notCbSent (attempt_callback err s) = notCbSent s"
  "userProfile (attempt_callback err s) = userProfile s"
  "isAuthenticated (attempt_callback err s) = isAuthenticated s"
  "entries (attempt_callback err s) = entries s"
  "client (attempt_callback err s) = client s"
  "self (attempt_callback err s) = self s"
  "username (attempt_callback err s) = username s"
  "password (attempt_callback err s) = password s"
  by (simp_all add: attempt_callback_def Let_def split: client_binding.splits)

lemma callback_effects [simp]:
  "notSent (attempt_callback err s) = (notSent s \<and> client s \<noteq> Client)"
  "calls (attempt_callback err s) =
     (if client s = Client \<and> notSent s
      then calls s @ [(err, if isAuthenticated s then userProfile s else None)]
      else calls s)"
  "ops (attempt_callback err s) = (if client s = Client then ops s @ [OpDestroy] else ops s)"
  "thrown (attempt_callback err s) =
     (if client s = Client then thrown s else thrown s @ [ReferenceError])"
  by (auto simp: attempt_callback_def Let_def split: client_binding.splits)

lemma series_end_fields [simp]:
  "pending (series_end err s) = Finished"
  "res_listening (series_end err s) = res_listening s"
  "notCbSent (series_end err s) = notCbSent s"
  "userProfile (series_end err s) = userProfile s"
  "isAuthenticated (series_end err s) = isAuthenticated s"
  "entries (series_end err s) = entries s"
  "client (series_end err s) = client s"
  "self (series_end err s) = self s"
  "username (series_end err s) = username s"
  "password (series_end err s) = password s"
  "notSent (series_end err s) = (notSent s \<and> client s \<noteq> Client)"
  "calls (series_end err s) =
     (if client s = Client \<and> notSent s
      then calls s @ [(err, if isAuthenticated s then userProfile s else None)]
      else calls s)"
  "ops (series_end err s) = (if client s = Client then ops s @ [OpDestroy] else ops s)"
  "thrown (series_end err s) =
     (if client s = Client then thrown s else thrown s @ [ReferenceError])"
  by (simp_all add: series_end_def)

lemmas task_defs =
  verify_def user_bind_done_def unbind_def unbind_done_def
  search_def search_cb_def search_done_def on_searchEntry_def on_error_def on_end_def
  bind_def bind_done_def on_client_error_def

lemmas run_defs =
  validate_def LdapValidator_def example_options_def DEFAULT_SEARCH_QUERY_def Let_def
  attempt_callback_def series_end_def task_defs destroys_def
  timeout_error_def closed_error_def reconnecting_options_def

subsection \<open>The invariants hold\<close>

lemma phase_inv_validate: "phase_inv (validate this usr pwd)"
  by (simp add: phase_inv_def validate_def bind_def Let_def)

lemma phase_inv_step: "phase_inv s \<Longrightarrow> phase_inv (step s ev)"
  by (cases ev; cases "pending s")
     (auto simp: phase_inv_def task_defs split: option.splits list.splits sum.splits)

lemma phase_inv_run: "phase_inv s \<Longrightarrow> phase_inv (run s evs)"
  by (induction evs arbitrary: s) (simp_all add: phase_inv_step)

lemma latch_inv_validate: "latch_inv (validate this usr pwd)"
  by (simp add: latch_inv_def validate_def bind_def Let_def destroys_def)

lemma latch_inv_step: "latch_inv s \<Longrightarrow> latch_inv (step s ev)"
  by (cases ev)
     (auto simp: latch_inv_def destroys_def task_defs split: option.splits list.splits sum.splits)

lemma latch_inv_run: "latch_inv s \<Longrightarrow> latch_inv (run s evs)"
  by (induction evs arbitrary: s) (simp_all add: latch_inv_step)

lemma sent_step: "\<not> notSent s \<Longrightarrow> \<not> notSent (step s ev) \<and> calls (step s ev) = calls s"
  by (cases ev) (auto simp: task_defs split: option.splits list.splits sum.splits)

lemma sent_run: "\<not> notSent s \<Longrightarrow> \<not> notSent (run s evs) \<and> calls (run s evs) = calls s"
proof (induction evs arbitrary: s)
  case Nil
  then show ?case by simp
next
  case (Cons ev evs)
  from sent_step [OF Cons.prems, of ev] Cons.IH [of "step s ev"] show ?case by simp
qed

lemma run_append: "run s (xs @ ys) = run (run s xs) ys"
  by (induction xs arbitrary: s) simp_all

text \<open>
  Claim C1. For every call of \<^verbatim>\<open>validate\<close>, with any arguments and any sequence of
  events delivered afterwards (connection errors, callbacks of the four steps, events of
  the search response, in any order and number), the caller's callback is invoked at most
  once; and once it has been invoked, no later event invokes it again or changes what was
  delivered: the first completion wins.
\<close>

theorem callback_at_most_once:
  "length (calls (run (validate this usr pwd) evs)) \<le> 1 \<and>
   (calls (run (validate this usr pwd) evs) = [] \<or>
    calls (run (validate this usr pwd) (evs @ later)) = calls (run (validate this usr pwd) evs))"
proof -
  let ?s = "run (validate this usr pwd) evs"
  have inv: "latch_inv ?s" by (simp add: latch_inv_run latch_inv_validate)
  then have "length (calls ?s) \<le> 1" by (auto simp: latch_inv_def split: if_splits)
  moreover have "calls (run ?s later) = calls ?s" if "calls ?s \<noteq> []"
  proof -
    from inv that have "\<not> notSent ?s" by (auto simp: latch_inv_def split: if_splits)
    then show ?thesis using sent_run by blast
  qed
  ultimately show ?thesis by (auto simp: run_append)
qed

theorem callback_at_most_once_witness:
  "calls (run (validate (LdapValidator example_options) (JStr ''alice'') (JStr ''secret''))
            ([ClientError timeout_error] @ [ServiceBindDone (Some closed_error)]))
     = [(Some timeout_error, None)]"
  using callback_at_most_once
    [of "LdapValidator example_options" "JStr ''alice''" "JStr ''secret''"
        "[ClientError timeout_error]" "[ServiceBindDone (Some closed_error)]"]
  by (simp add: run_defs del: callback_fields callback_effects series_end_fields)

subsection \<open>A rejected call\<close>

text \<open>
  When the guard rejects the user name or the password, \<^verbatim>\<open>validate\<close> calls
  \<^verbatim>\<open>_callback()\<close> before \<^verbatim>\<open>let client = ...\<close> has run. The read of \<^verbatim>\<open>client\<close>
  in \<^verbatim>\<open>_callback\<close> raises; no client exists, no listener is attached, and no event
  can reach the attempt afterwards.
\<close>

lemma rejected_validate:
  assumes "typeof usr \<noteq> ''string'' \<or> string_of usr = [] \<or>
           typeof pwd \<noteq> ''string'' \<or> string_of pwd = []"
  shows "client (validate this usr pwd) = Uninitialized \<and>
         pending (validate this usr pwd) = NotStarted \<and>
         \<not> res_listening (validate this usr pwd) \<and>
         ops (validate this usr pwd) = [] \<and>
         calls (validate this usr pwd) = [] \<and>
         thrown (validate this usr pwd) = [ReferenceError]"
  using assms by (auto simp: validate_def Let_def)

lemma idle_step:
  "client s = Uninitialized \<Longrightarrow> pending s = NotStarted \<Longrightarrow> \<not> res_listening s \<Longrightarrow> step s ev = s"
  by (cases ev) simp_all

lemma idle_run:
  "client s = Uninitialized \<Longrightarrow> pending s = NotStarted \<Longrightarrow> \<not> res_listening s \<Longrightarrow> run s evs = s"
  by (induction evs) (simp_all add: idle_step)

subsection \<open>Destroying the connection\<close>

text \<open>
  Claim C4 says that the connection is destroyed exactly once on every attempt that reaches
  a terminal transition, also when the connection error event and the completion of the
  series both fire. In the code \<^verbatim>\<open>client.destroy()\<close> stands before the latch in
  \<^verbatim>\<open>_callback\<close>, so it runs at every completion attempt: a connection error followed by
  the failure of the outstanding service bind destroys the client twice.
\<close>

theorem destroy_twice_counterexample:
  "calls (run (validate (LdapValidator example_options) (JStr ''alice'') (JStr ''secret''))
            [ClientError timeout_error, ServiceBindDone (Some closed_error)]) \<noteq> [] \<and>
   destroys (run (validate (LdapValidator example_options) (JStr ''alice'') (JStr ''secret''))
            [ClientError timeout_error, ServiceBindDone (Some closed_error)]) = 2"
  by (simp add: run_defs del: callback_fields callback_effects series_end_fields)

lemma self_step [simp]: "self (step s ev) = self s"
  by (cases ev) (auto simp: task_defs split: option.splits list.splits sum.splits)

lemma self_validate [simp]: "self (validate this usr pwd) = this"
  by (simp add: validate_def bind_def Let_def)

text \<open>
  Every attempt-fatal connection error event destroys the client once, and so does the end
  of the series, which happens once.
\<close>

lemma client_step [simp]: "client (step s ev) = client s"
  by (cases ev) (auto simp: task_defs split: option.splits list.splits sum.splits)

lemma self_run [simp]: "self (run s evs) = self s"
  by (induction evs arbitrary: s) simp_all

lemma client_run [simp]: "client (run s evs) = client s"
  by (induction evs arbitrary: s) simp_all

lemma destroys_step:
  "phase_inv s \<Longrightarrow> client s = Client \<Longrightarrow>
   destroys (step s ev) + (if pending s = Finished then 1 else 0) =
   destroys s + (if fatal (self s) ev then 1 else 0) +
     (if pending (step s ev) = Finished then 1 else 0)"
  by (cases ev; cases "pending s")
     (auto simp: phase_inv_def destroys_def task_defs
           split: option.splits list.splits sum.splits)

lemma destroys_run:
  "phase_inv s \<Longrightarrow> client s = Client \<Longrightarrow>
   destroys (run s evs) + (if pending s = Finished then 1 else 0) =
   destroys s + length (filter (fatal (self s)) evs) +
     (if pending (run s evs) = Finished then 1 else 0)"
proof (induction evs arbitrary: s)
  case Nil
  then show ?case by simp
next
  case (Cons ev evs)
  have "destroys (run (step s ev) evs) + (if pending (step s ev) = Finished then 1 else 0) =
        destroys (step s ev) + length (filter (fatal (self s)) evs) +
          (if pending (run (step s ev) evs) = Finished then 1 else 0)"
    using Cons.IH [of "step s ev"] Cons.prems by (simp add: phase_inv_step)
  then show ?case using destroys_step [OF Cons.prems, of ev] by (auto split: if_splits)
qed

text \<open>
  Without an attempt-fatal connection error the latch can only be fired by the end of the
  series.
\<close>

lemma open_step:
  "phase_inv s \<Longrightarrow> \<not> fatal (self s) ev \<Longrightarrow> notSent s \<or> pending s = Finished \<Longrightarrow>
   notSent (step s ev) \<or> pending (step s ev) = Finished"
  by (cases ev; cases "pending s")
     (auto simp: phase_inv_def task_defs split: option.splits list.splits sum.splits)

lemma open_run:
  "phase_inv s \<Longrightarrow> list_all (\<lambda>ev. \<not> fatal (self s) ev) evs \<Longrightarrow>
   notSent s \<or> pending s = Finished \<Longrightarrow>
   notSent (run s evs) \<or> pending (run s evs) = Finished"
proof (induction evs arbitrary: s)
  case Nil
  then show ?case by simp
next
  case (Cons ev evs)
  have "notSent (step s ev) \<or> pending (step s ev) = Finished"
    using open_step [OF Cons.prems(1) _ Cons.prems(3), of ev] Cons.prems(2) by simp
  then show ?case
    using Cons.IH [of "step s ev"] Cons.prems(1,2) by (simp add: phase_inv_step)
qed

lemma open_validate:
  "list_all (\<lambda>ev. \<not> fatal this ev) evs \<Longrightarrow>
   notSent (run (validate this usr pwd) evs) \<or> pending (run (validate this usr pwd) evs) = Finished"
proof -
  assume a: "list_all (\<lambda>ev. \<not> fatal this ev) evs"
  have "notSent (validate this usr pwd)" by (simp add: validate_def bind_def Let_def)
  then show ?thesis using open_run [OF phase_inv_validate, of this usr pwd evs] a by simp
qed

text \<open>
  Claim C4, amended. On every attempt \<^verbatim>\<open>client.destroy()\<close> is invoked once at every
  completion attempt, whether the latch lets it through or not: once for each attempt-fatal
  connection error event delivered and once when the step sequence ends, and never when no
  client was created. So on every attempt whose callback has been invoked it has been
  invoked at least once; it has been invoked exactly once when only one completion attempt
  occurred, and more than once when a connection error event and the end of the step
  sequence both fire.
\<close>

theorem destroy_per_completion:
  "destroys (run (validate this usr pwd) evs) =
     (if client (run (validate this usr pwd) evs) = Client
      then length (filter (fatal this) evs) +
           (if pending (run (validate this usr pwd) evs) = Finished then 1 else 0)
      else 0) \<and>
   (calls (run (validate this usr pwd) evs) \<noteq> [] \<longrightarrow>
      client (run (validate this usr pwd) evs) = Client \<and>
      1 \<le> destroys (run (validate this usr pwd) evs)) \<and>
   (pending (run (validate this usr pwd) evs) = Finished \<longrightarrow>
      destroys (run (validate this usr pwd) evs) = 1 + length (filter (fatal this) evs))"
proof -
  let ?v = "validate this usr pwd"
  let ?s = "run ?v evs"
  have linv: "latch_inv ?s" by (simp add: latch_inv_run latch_inv_validate)
  have exact: "destroys ?s =
     (if client ?s = Client
      then length (filter (fatal this) evs) + (if pending ?s = Finished then 1 else 0)
      else 0)"
  proof (cases "client ?v = Client")
    case True
    then have "pending ?v = Binding" "destroys ?v = 0"
      by (auto simp: validate_def bind_def Let_def destroys_def split: if_splits)
    then show ?thesis
      using destroys_run [OF phase_inv_validate True, of evs] True by simp
  next
    case False
    then have u: "client ?v = Uninitialized" by (cases "client ?v") simp_all
    then have "pending ?v = NotStarted" "\<not> res_listening ?v" "destroys ?v = 0"
      by (auto simp: validate_def bind_def Let_def destroys_def split: if_splits)
    then have "?s = ?v" using u by (simp add: idle_run)
    then show ?thesis using u \<open>destroys ?v = 0\<close> by simp
  qed
  have "client ?s = Client \<and> 1 \<le> destroys ?s" if "calls ?s \<noteq> []"
  proof -
    have d: "1 \<le> destroys ?s" using linv that by (simp add: latch_inv_def)
    then have "client ?s = Client" using exact by (auto split: if_splits)
    then show ?thesis using d by simp
  qed
  moreover have "destroys ?s = 1 + length (filter (fatal this) evs)" if "pending ?s = Finished"
  proof -
    have "phase_inv ?s" by (simp add: phase_inv_run phase_inv_validate)
    then have "client ?s = Client" using that by (simp add: phase_inv_def)
    then show ?thesis using exact that by simp
  qed
  ultimately show ?thesis using exact by blast
qed

theorem destroy_per_completion_witness:
  "calls (run (validate (LdapValidator example_options) (JStr ''nosuchuser'') (JStr ''anything''))
            [ServiceBindDone None, SearchDone None, SearchEnd, UnbindDone None]) \<noteq> [] \<and>
   destroys (run (validate (LdapValidator example_options) (JStr ''nosuchuser'') (JStr ''anything''))
            [ServiceBindDone None, SearchDone None, SearchEnd, UnbindDone None]) = 1"
  using destroy_per_completion
    [of "LdapValidator example_options" "JStr ''nosuchuser''" "JStr ''anything''"
        "[ServiceBindDone None, SearchDone None, SearchEnd, UnbindDone None]"]
  by (simp add: run_defs del: callback_fields callback_effects series_end_fields)

subsection \<open>The verification bind\<close>

text \<open>
  Claim C5 says that every attempt in which a matching entry was found and the bind as that
  user fails, for any reason, completes with no error and a null profile. In the code the
  outcome is guarded by the latch \<^verbatim>\<open>notSent\<close>: a connection error event delivered while
  the bind as the user is in flight (on a client that reconnects by itself, an error other
  than a connection reset) completes the attempt with that error, and the failure of the
  bind, which follows, finds the latch fired and delivers nothing.
\<close>

theorem verification_race_counterexample:
  "reconnect reconnecting_options \<and>
   pending (run (validate (LdapValidator reconnecting_options) (JStr ''alice'') (JStr ''wrong''))
      [ServiceBindDone None, SearchDone None, SearchEntry alice, SearchEnd, UnbindDone None,
       ClientError timeout_error]) = Verifying \<and>
   calls (run (validate (LdapValidator reconnecting_options) (JStr ''alice'') (JStr ''wrong''))
      [ServiceBindDone None, SearchDone None, SearchEntry alice, SearchEnd, UnbindDone None,
       ClientError timeout_error, UserBindDone (Some closed_error)])
     = [(Some timeout_error, None)]"
  by (simp add: run_defs decode_defs del: callback_fields callback_effects series_end_fields)

text \<open>
  Claim C5, amended. In every state an attempt can reach in which the bind as the found
  user is outstanding (so a matching entry was found and decoded), a failure of that bind,
  with any error, ends the series without an error and without authenticating. When no
  outcome has been delivered before, and that is so whenever the latch is still set and
  whenever no attempt-fatal connection error event has been delivered, the attempt completes
  with no error and a null profile, the same arguments as in the no-match case. When an
  outcome has been delivered before, it stands and the failure of the bind delivers
  nothing.
\<close>

theorem verification_failure_not_authenticated:
  assumes "s = run (validate this usr pwd) evs" and "pending s = Verifying"
  shows "userProfile s \<noteq> None \<and>
         pending (step s (UserBindDone (Some err))) = Finished \<and>
         \<not> isAuthenticated (step s (UserBindDone (Some err))) \<and>
         (calls s = [] \<longrightarrow> calls (step s (UserBindDone (Some err))) = [(None, None)]) \<and>
         (calls s \<noteq> [] \<longrightarrow> calls (step s (UserBindDone (Some err))) = calls s) \<and>
         (notSent s \<longrightarrow> calls s = []) \<and>
         (list_all (\<lambda>ev. \<not> fatal this ev) evs \<longrightarrow> calls s = [])"
proof -
  have "phase_inv s" using assms(1) by (simp add: phase_inv_run phase_inv_validate)
  moreover have "latch_inv s" using assms(1) by (simp add: latch_inv_run latch_inv_validate)
  moreover have "list_all (\<lambda>ev. \<not> fatal this ev) evs \<longrightarrow> notSent s"
    using open_validate [of this evs usr pwd] assms by auto
  ultimately show ?thesis using assms(2)
    by (auto simp: phase_inv_def latch_inv_def user_bind_done_def split: if_splits)
qed

theorem verification_failure_not_authenticated_witness:
  "pending (run (validate (LdapValidator reconnecting_options) (JStr ''alice'') (JStr ''wrong''))
      [ServiceBindDone None, SearchDone None, SearchEntry alice, SearchEnd,
       ClientError closed_error, UnbindDone None])
     = Verifying \<and>
   list_all (\<lambda>ev. \<not> fatal (LdapValidator reconnecting_options) ev)
      [ServiceBindDone None, SearchDone None, SearchEntry alice, SearchEnd,
       ClientError closed_error, UnbindDone None] \<and>
   calls (step (run (validate (LdapValidator reconnecting_options) (JStr ''alice'') (JStr ''wrong''))
      [ServiceBindDone None, SearchDone None, SearchEntry alice, SearchEnd,
       ClientError closed_error, UnbindDone None])
      (UserBindDone (Some timeout_error))) = [(None, None)]"
proof -
  let ?evs = "[ServiceBindDone None, SearchDone None, SearchEntry alice, SearchEnd,
       ClientError closed_error, UnbindDone None]"
  let ?s = "run (validate (LdapValidator reconnecting_options) (JStr ''alice'') (JStr ''wrong'')) ?evs"
  have p: "pending ?s = Verifying"
    by (simp add: run_defs decode_defs del: callback_fields callback_effects series_end_fields)
  have q: "list_all (\<lambda>ev. \<not> fatal (LdapValidator reconnecting_options) ev) ?evs"
    by (simp add: run_defs)
  from verification_failure_not_authenticated [OF refl p, of timeout_error] p q
  show ?thesis by blast
qed

subsection \<open>A search without a match\<close>

text \<open>
  Claim C6 says that every attempt whose search ends with zero entries proceeds through the
  unbind and completes with no error and a null profile. In the code the unbind step passes
  its error to the series (\<^verbatim>\<open>return cb(err)\<close>), as the bind step does, so a search
  without a match followed by a failing unbind completes with that error.
\<close>

theorem unbind_failure_counterexample:
  "calls (run (validate (LdapValidator example_options) (JStr ''nosuchuser'') (JStr ''anything''))
      [ServiceBindDone None, SearchDone None, SearchEnd, UnbindDone (Some closed_error)])
     = [(Some closed_error, None)]"
  by (simp add: run_defs del: callback_fields callback_effects series_end_fields)

lemma awaiting_unbind_step:
  "awaiting_unbind t \<Longrightarrow> between_end_and_unbind ev \<Longrightarrow>
   awaiting_unbind (step t ev) \<and>
   filter (\<lambda>op. op \<noteq> OpDestroy) (ops (step t ev)) = filter (\<lambda>op. op \<noteq> OpDestroy) (ops t)"
  by (cases ev)
     (auto simp: awaiting_unbind_def task_defs split: option.splits list.splits sum.splits)

lemma awaiting_unbind_run:
  "awaiting_unbind t \<Longrightarrow> list_all between_end_and_unbind mid \<Longrightarrow>
   awaiting_unbind (run t mid) \<and>
   filter (\<lambda>op. op \<noteq> OpDestroy) (ops (run t mid)) = filter (\<lambda>op. op \<noteq> OpDestroy) (ops t)"
proof (induction mid arbitrary: t)
  case Nil
  then show ?case by simp
next
  case (Cons ev mid)
  from awaiting_unbind_step [OF Cons.prems(1), of ev] Cons.prems(2)
  have 1: "awaiting_unbind (step t ev)"
    and 2: "filter (\<lambda>op. op \<noteq> OpDestroy) (ops (step t ev)) = filter (\<lambda>op. op \<noteq> OpDestroy) (ops t)"
    by simp_all
  from Cons.IH [OF 1] Cons.prems(2) 2 show ?case by simp
qed

lemma end_without_entries:
  assumes "phase_inv s" and "pending s = Searching" and "res_listening s" and "entries s = []"
  shows "calls (step s SearchEnd) = calls s" and "ops (step s SearchEnd) = ops s @ [OpUnbind]"
    and "awaiting_unbind (step s SearchEnd)" and "notSent (step s SearchEnd) = notSent s"
  using assms
  by (simp_all add: phase_inv_def awaiting_unbind_def on_end_def search_cb_def unbind_def)

lemma unbind_done_without_profile:
  assumes "awaiting_unbind t" and "latch_inv t"
  shows "pending (step t (UnbindDone r)) = Finished"
    and "filter (\<lambda>op. op \<noteq> OpDestroy) (ops (step t (UnbindDone r)))
           = filter (\<lambda>op. op \<noteq> OpDestroy) (ops t)"
    and "calls t = [] \<longrightarrow> calls (step t (UnbindDone r)) = [(r, None)]"
    and "calls t \<noteq> [] \<longrightarrow> calls (step t (UnbindDone r)) = calls t"
  using assms
  by (cases r; auto simp: awaiting_unbind_def latch_inv_def unbind_done_def verify_def
        split: if_splits)+

text \<open>
  Claim C6, amended. In every state an attempt can reach in which the search response is
  being listened to, the search step is outstanding and no entry has arrived, the end of
  the result stream is not an error: nothing is delivered to the caller and the unbind is
  issued. Provided the response delivers no entry after its end, then, whatever events
  arrive before the callback of the unbind (connection errors among them) and whatever the
  unbind reports, the series ends at that callback and no bind as the user is attempted:
  apart from destroying the client, the unbind is the only operation issued. When no
  outcome has been delivered before that callback, and that is so whenever no attempt-fatal
  connection error event has been delivered, the caller receives what the unbind reports and
  a null profile: no error when the unbind succeeds, the unbind's error when it fails. When
  an outcome has been delivered before, it stands.
\<close>

theorem no_match_not_authenticated:
  assumes "s = run (validate this usr pwd) evs" and "pending s = Searching"
    and "res_listening s" and "entries s = []"
    and "list_all between_end_and_unbind mid"
  shows "calls (step s SearchEnd) = calls s \<and>
         ops (step s SearchEnd) = ops s @ [OpUnbind] \<and>
         pending (run (step s SearchEnd) mid) = Unbinding \<and>
         pending (step (run (step s SearchEnd) mid) (UnbindDone r)) = Finished \<and>
         filter (\<lambda>op. op \<noteq> OpDestroy) (ops (step (run (step s SearchEnd) mid) (UnbindDone r)))
           = filter (\<lambda>op. op \<noteq> OpDestroy) (ops s) @ [OpUnbind] \<and>
         (calls (run (step s SearchEnd) mid) = [] \<longrightarrow>
            calls (step (run (step s SearchEnd) mid) (UnbindDone r)) = [(r, None)]) \<and>
         (calls (run (step s SearchEnd) mid) \<noteq> [] \<longrightarrow>
            calls (step (run (step s SearchEnd) mid) (UnbindDone r))
              = calls (run (step s SearchEnd) mid)) \<and>
         (notSent s \<and> list_all (\<lambda>ev. \<not> fatal this ev) mid \<longrightarrow>
            calls (run (step s SearchEnd) mid) = []) \<and>
         (list_all (\<lambda>ev. \<not> fatal this ev) (evs @ mid) \<longrightarrow>
            calls (run (step s SearchEnd) mid) = [])"
proof -
  define s0 where "s0 = step s SearchEnd"
  define s1 where "s1 = run s0 mid"
  have pinv: "phase_inv s" using assms(1) by (simp add: phase_inv_run phase_inv_validate)
  have linv: "latch_inv s" using assms(1) by (simp add: latch_inv_run latch_inv_validate)
  have self: "self s = this" using assms(1) by simp
  note e = end_without_entries [OF pinv assms(2-4), folded s0_def]
  have self0: "self s0 = this" using self self_step [of s SearchEnd] by (simp only: s0_def)
  have au: "awaiting_unbind s1"
    and ops1: "filter (\<lambda>op. op \<noteq> OpDestroy) (ops s1) = filter (\<lambda>op. op \<noteq> OpDestroy) (ops s) @ [OpUnbind]"
    using awaiting_unbind_run [OF e(3) assms(5)] e(2) by (simp_all add: s1_def)
  have linv1: "latch_inv s1"
    unfolding s1_def s0_def using linv by (intro latch_inv_run latch_inv_step)
  have pinv0: "phase_inv s0" unfolding s0_def using pinv by (rule phase_inv_step)
  note u = unbind_done_without_profile [OF au linv1, of r]
  have open1: "calls s1 = []" if "notSent s" "list_all (\<lambda>ev. \<not> fatal this ev) mid"
  proof -
    have "notSent s1 \<or> pending s1 = Finished"
      using open_run [OF pinv0, of mid] that e(4) self0 by (simp add: s1_def)
    then have "notSent s1" using au by (simp add: awaiting_unbind_def)
    then show ?thesis using linv1 by (simp add: latch_inv_def)
  qed
  have open2: "calls s1 = []" if "list_all (\<lambda>ev. \<not> fatal this ev) (evs @ mid)"
  proof -
    have "notSent s \<or> pending s = Finished"
      using open_validate [of this evs usr pwd] that assms(1) by simp
    then have "notSent s" using assms(2) by simp
    then show ?thesis using open1 that by simp
  qed
  have "calls s0 = calls s \<and>
         ops s0 = ops s @ [OpUnbind] \<and>
         pending s1 = Unbinding \<and>
         pending (step s1 (UnbindDone r)) = Finished \<and>
         filter (\<lambda>op. op \<noteq> OpDestroy) (ops (step s1 (UnbindDone r)))
           = filter (\<lambda>op. op \<noteq> OpDestroy) (ops s) @ [OpUnbind] \<and>
         (calls s1 = [] \<longrightarrow> calls (step s1 (UnbindDone r)) = [(r, None)]) \<and>
         (calls s1 \<noteq> [] \<longrightarrow> calls (step s1 (UnbindDone r)) = calls s1) \<and>
         (notSent s \<and> list_all (\<lambda>ev. \<not> fatal this ev) mid \<longrightarrow> calls s1 = []) \<and>
         (list_all (\<lambda>ev. \<not> fatal this ev) (evs @ mid) \<longrightarrow> calls s1 = [])"
    using e(1,2) au u ops1 open1 open2 by (simp add: awaiting_unbind_def del: step.simps)
  then show ?thesis unfolding s1_def s0_def .
qed

theorem no_match_not_authenticated_witness:
  "pending (run (validate (LdapValidator reconnecting_options) (JStr ''nosuchuser'') (JStr ''anything''))
      [ServiceBindDone None, SearchDone None]) = Searching \<and>
   res_listening (run (validate (LdapValidator reconnecting_options) (JStr ''nosuchuser'') (JStr ''anything''))
      [ServiceBindDone None, SearchDone None]) \<and>
   entries (run (validate (LdapValidator reconnecting_options) (JStr ''nosuchuser'') (JStr ''anything''))
      [ServiceBindDone None, SearchDone None]) = [] \<and>
   list_all between_end_and_unbind [ClientError closed_error] \<and>
   list_all (\<lambda>ev. \<not> fatal (LdapValidator reconnecting_options) ev)
      ([ServiceBindDone None, SearchDone None] @ [ClientError closed_error]) \<and>
   calls (step (run (step (run (validate (LdapValidator reconnecting_options) (JStr ''nosuchuser'') (JStr ''anything''))
      [ServiceBindDone None, SearchDone None]) SearchEnd) [ClientError closed_error]) (UnbindDone None))
     = [(None, None)]"
proof -
  let ?evs = "[ServiceBindDone None, SearchDone None]"
  let ?s = "run (validate (LdapValidator reconnecting_options) (JStr ''nosuchuser'') (JStr ''anything'')) ?evs"
  have p: "pending ?s = Searching"
    by (simp add: run_defs del: callback_fields callback_effects series_end_fields)
  have r: "res_listening ?s"
    by (simp add: run_defs del: callback_fields callback_effects series_end_fields)
  have e: "entries ?s = []"
    by (simp add: run_defs del: callback_fields callback_effects series_end_fields)
  have m: "list_all between_end_and_unbind [ClientError closed_error]" by simp
  have q: "list_all (\<lambda>ev. \<not> fatal (LdapValidator reconnecting_options) ev)
      (?evs @ [ClientError closed_error])"
    by (simp add: run_defs)
  from no_match_not_authenticated [OF refl p r e m, of None] p r e m q
  show ?thesis by blast
qed

subsection \<open>The fast path\<close>

text \<open>
  Claim C2 says that a call with an absent, non-string or empty user name or password
  completes at once with no error and a null profile, without opening a connection. The
  code opens no connection, but it does not complete: \<^verbatim>\<open>validate\<close> raises a
  \<^verbatim>\<open>ReferenceError\<close> and the caller's callback is never invoked, neither then nor
  later.
\<close>

theorem fast_path_raises:
  assumes "typeof usr \<noteq> ''string'' \<or> string_of usr = [] \<or>
           typeof pwd \<noteq> ''string'' \<or> string_of pwd = []"
  shows "thrown (validate this usr pwd) = [ReferenceError] \<and>
         calls (run (validate this usr pwd) evs) = [] \<and>
         client (run (validate this usr pwd) evs) = Uninitialized"
  using rejected_validate [OF assms, of this] idle_run [of "validate this usr pwd" evs] by simp

theorem fast_path_raises_witness:
  "string_of (JStr '''') = [] \<and>
   thrown (validate (LdapValidator example_options) (JStr '''') (JStr ''secret'')) = [ReferenceError] \<and>
   calls (run (validate (LdapValidator example_options) (JStr '''') (JStr ''secret''))
            [ClientError timeout_error]) = []"
  using fast_path_raises
    [of "JStr ''''" "JStr ''secret''" "LdapValidator example_options" "[ClientError timeout_error]"]
  by simp

text \<open>
  Claim C10. For every user name or password that is not a string (a number, an array, an
  object, \<^verbatim>\<open>null\<close>, \<^verbatim>\<open>undefined\<close>), whatever the other argument is and whatever
  events follow, no client is created, no directory operation is issued, and the callback
  is never invoked with a profile.
\<close>

theorem non_string_rejected:
  assumes "typeof usr \<noteq> ''string'' \<or> typeof pwd \<noteq> ''string''"
  shows "client (run (validate this usr pwd) evs) = Uninitialized \<and>
         ops (run (validate this usr pwd) evs) = [] \<and>
         \<not> (\<exists>e p. (e, Some p) \<in> set (calls (run (validate this usr pwd) evs)))"
proof -
  have "typeof usr \<noteq> ''string'' \<or> string_of usr = [] \<or>
        typeof pwd \<noteq> ''string'' \<or> string_of pwd = []"
    using assms by blast
  from rejected_validate [OF this, of this] idle_run [of "validate this usr pwd" evs]
  show ?thesis by simp
qed

theorem non_string_rejected_witness:
  "typeof (JArr [JStr ''alice'']) \<noteq> ''string'' \<and>
   client (run (validate (LdapValidator example_options) (JArr [JStr ''alice'']) (JStr ''secret''))
             [ServiceBindDone None]) = Uninitialized \<and>
   ops (run (validate (LdapValidator example_options) (JArr [JStr ''alice'']) (JStr ''secret''))
             [ServiceBindDone None]) = []"
  using non_string_rejected
    [of "JArr [JStr ''alice'']" "JStr ''secret''" "LdapValidator example_options"
        "[ServiceBindDone None]"]
  by simp

subsection \<open>The search filter\<close>

text \<open>
  Claim C9 says that the filter issued is the template with the placeholder replaced by the
  literal user name. The code passes the user name to \<^verbatim>\<open>String.prototype.replace\<close> as
  the replacement string, where \<^verbatim>\<open>$&\<close>, \<^verbatim>\<open>$$\<close>, \<^verbatim>\<open>$`\<close> and \<^verbatim>\<open>$'\<close> are
  patterns (\<^verbatim>\<open>replace_all_literal\<close> above: without a dollar sign the two agree). With
  the default template and the user name \<^verbatim>\<open>$&\<close> the search is issued with the
  template itself as filter, placeholders in place, and not with the literal substitution.
\<close>

theorem dollar_pattern_in_username:
  "ops (run (validate (LdapValidator (opts\<lparr>search_query := None\<rparr>)) (JStr ''$&'') (JStr ''secret''))
          [ServiceBindDone None])
     = [OpBind (PStr (bindDN opts)) (JStr (bindCredentials opts)),
        OpSearch (base opts) ''sub''
          ''(&(objectclass=user)(|(sAMAccountName={0})(UserPrincipalName={0})))''] \<and>
   substitute_literal DEFAULT_SEARCH_QUERY ''{0}'' ''$&''
     = ''(&(objectclass=user)(|(sAMAccountName=$&)(UserPrincipalName=$&)))''"
  by (simp add: validate_def LdapValidator_def DEFAULT_SEARCH_QUERY_def Let_def task_defs
        replace_all_def)

theorem dollar_pattern_in_username_witness:
  "typeof (JStr ''$&'') = ''string'' \<and> length (string_of (JStr ''$&'')) \<noteq> 0 \<and>
   ops (run (validate (LdapValidator example_options) (JStr ''$&'') (JStr ''secret''))
          [ServiceBindDone None])
     = [OpBind (PStr ''svc'') (JStr ''svc-secret''),
        OpSearch ''DC=example,DC=com'' ''sub''
          ''(&(objectclass=user)(|(sAMAccountName={0})(UserPrincipalName={0})))'']"
  using dollar_pattern_in_username [of example_options]
  by (simp add: example_options_def)

end
